theory Spec2Isabelle
  imports
    Complex_Main
    "HOL-Library.Word"
    "HOL-Library.List_Lexorder"
    "HOL-Library.Option_ord"
    "HOL-Library.Signed_Division"
begin

section \<open>Data model\<close>

text \<open>
  A byte array (\<^verbatim>\<open>Uint8Array\<close>, SQL \<^verbatim>\<open>BYTEA\<close>) is a list of 8-bit words. The order on
  lists is the lexicographic one; it is the order in which PostgreSQL compares \<^verbatim>\<open>BYTEA\<close>
  values (bytewise, a proper prefix first). A key is a byte array or \<^verbatim>\<open>null\<close> (the anchor);
  the order on \<open>option\<close> puts \<open>None\<close> first, which is \<^verbatim>\<open>ORDER BY key ASC NULLS FIRST\<close>.
\<close>

type_synonym bytes = "8 word list"

type_synonym Key = "bytes option"

text \<open>
  \<^verbatim>\<open>type NodeRecord = { level: number; key: Uint8Array | null; hash: Uint8Array; value: Uint8Array | null }\<close>.
  The field \<^verbatim>\<open>value\<close> is called \<open>val\<close> here.
\<close>

record Node =
  level :: nat
  key :: Key
  hash :: bytes
  val :: "bytes option"

text \<open>
  What a call can do besides returning: throw (\<^verbatim>\<open>RangeError\<close> of a \<^verbatim>\<open>DataView\<close> read out of
  bounds or of a \<^verbatim>\<open>BigInt\<close> division by zero, a failed \<^verbatim>\<open>assert\<close>, \<^verbatim>\<open>TypeError\<close> of
  destructuring \<^verbatim>\<open>undefined\<close>), or not return within the given recursion depth.
\<close>

datatype error = RangeError | AssertionError | TypeError

datatype 'a result = Returns 'a | Throws error | OutOfFuel

fun rbind :: "'a result \<Rightarrow> ('a \<Rightarrow> 'b result) \<Rightarrow> 'b result" where
  "rbind (Returns x) f = f x"
| "rbind (Throws e) f = Throws e"
| "rbind OutOfFuel f = OutOfFuel"

subsection \<open>DataView\<close>

text \<open>
  \<^verbatim>\<open>DataView.setUint32(0, n)\<close> stores \<open>n\<close> modulo \<open>2 ^ 32\<close>, big-endian, in four bytes;
  \<^verbatim>\<open>DataView.getUint32(0)\<close> reads four bytes big-endian and throws \<^verbatim>\<open>RangeError\<close> when the
  view is shorter than four bytes.
\<close>

definition setUint32 :: "int \<Rightarrow> bytes" where
  "setUint32 n =
     (let w = (word_of_int n :: 32 word)
      in [ucast (drop_bit 24 w), ucast (drop_bit 16 w), ucast (drop_bit 8 w), ucast w])"

definition getUint32 :: "bytes \<Rightarrow> int result" where
  "getUint32 b =
     (case b of
        b0 # b1 # b2 # b3 # _ \<Rightarrow>
          Returns (((uint b0 * 256 + uint b1) * 256 + uint b2) * 256 + uint b3)
      | _ \<Rightarrow> Throws RangeError)"

section \<open>Tree (okra-pg)\<close>

text \<open>
  The hash function \<^verbatim>\<open>blake3\<close> of \<^verbatim>\<open>@noble/hashes\<close> is a parameter \<open>b3\<close> of the model:
  \<open>b3 n x\<close> is the digest of length \<open>n\<close> (\<^verbatim>\<open>dkLen\<close>) of the bytes \<open>x\<close>. An incremental hasher
  (\<^verbatim>\<open>blake3.create\<close>, \<^verbatim>\<open>update\<close>, \<^verbatim>\<open>digest\<close>) is the digest of the concatenation of its updates.

  The table \<^verbatim>\<open>nodes\<close> is the list of its rows. The target width \<^verbatim>\<open>Q\<close> is an integer: for any
  other number \<^verbatim>\<open>BigInt(this.Q)\<close> throws. \<^verbatim>\<open>BigInt\<close> division truncates towards zero and throws
  \<^verbatim>\<open>RangeError\<close> on a zero divisor.
\<close>

record Tree =
  K :: nat
  Q :: int
  LIMIT :: int
  LIMIT_KEY :: bytes
  LEAF_ANCHOR_HASH :: bytes

definition new_Tree :: "(nat \<Rightarrow> bytes \<Rightarrow> bytes) \<Rightarrow> nat option \<Rightarrow> int option \<Rightarrow> Tree result" where
  "new_Tree b3 optK optQ =
     (let k = (case optK of None \<Rightarrow> 16 | Some k \<Rightarrow> k);
          q = (case optQ of None \<Rightarrow> 32 | Some q \<Rightarrow> q)
      in if q = 0 then Throws RangeError
         else let lim = (2 ^ 32) sdiv q
              in Returns \<lparr>K = k, Q = q, LIMIT = lim, LIMIT_KEY = setUint32 lim,
                          LEAF_ANCHOR_HASH = b3 k []\<rparr>)"

definition isBoundary :: "Tree \<Rightarrow> Node \<Rightarrow> bool result" where
  "isBoundary t n = rbind (getUint32 (hash n)) (\<lambda>u. Returns (u < LIMIT t))"

definition hashEntry :: "(nat \<Rightarrow> bytes \<Rightarrow> bytes) \<Rightarrow> nat \<Rightarrow> bytes \<Rightarrow> bytes \<Rightarrow> bytes" where
  "hashEntry b3 k ky v =
     b3 k (setUint32 (int (length ky)) @ ky @ setUint32 (int (length v)) @ v)"

subsection \<open>Queries\<close>

definition getNode :: "nat \<Rightarrow> Key \<Rightarrow> Node list \<Rightarrow> Node option" where
  "getNode l k s = find (\<lambda>r. level r = l \<and> key r = k) s"

definition setNode :: "Node \<Rightarrow> Node list \<Rightarrow> Node list" where
  "setNode n s =
     (if getNode (level n) (key n) s = None then s @ [n]
      else map (\<lambda>r. if level r = level n \<and> key r = key n
                     then r\<lparr>hash := hash n, val := val n\<rparr> else r) s)"

definition deleteNode :: "nat \<Rightarrow> Key \<Rightarrow> Node list \<Rightarrow> Node list" where
  "deleteNode l k s = filter (\<lambda>r. \<not> (level r = l \<and> key r = k)) s"

text \<open>
  \<^verbatim>\<open>SELECT * FROM nodes WHERE level = $1 AND (key ISNULL OR (key <= $2 AND hash < $3))
  ORDER BY key DESC NULLS LAST LIMIT 1\<close>
\<close>

definition getFirstSibling :: "Tree \<Rightarrow> Node \<Rightarrow> Node list \<Rightarrow> Node result" where
  "getFirstSibling t n s =
     (if key n = None then Returns n
      else case rev (sort_key key
                  (filter (\<lambda>r. level r = level n \<and>
                       (key r = None \<or> (key r \<le> key n \<and> hash r < LIMIT_KEY t))) s)) of
             [] \<Rightarrow> Throws AssertionError
           | r # _ \<Rightarrow> Returns \<lparr>level = level r, key = key r, hash = hash r, val = None\<rparr>)"

text \<open>
  The rows of \<^verbatim>\<open>getHash(level, key)\<close>: the rows of level \<open>level - 1\<close> from \<open>key\<close> on
  (all of them for the anchor), up to the first keyed row after \<open>key\<close> whose hash is below
  \<^verbatim>\<open>LIMIT_KEY\<close>, in ascending key order with the anchor first.
\<close>

definition nextBoundary :: "Tree \<Rightarrow> nat \<Rightarrow> Key \<Rightarrow> Node list \<Rightarrow> Node list" where
  "nextBoundary t l k s =
     sort_key key
       (filter (\<lambda>r. Suc (level r) = l \<and> key r \<noteq> None \<and> (k = None \<or> k < key r) \<and>
                     hash r < LIMIT_KEY t) s)"

definition children :: "Tree \<Rightarrow> nat \<Rightarrow> Key \<Rightarrow> Node list \<Rightarrow> Node list" where
  "children t l k s =
     sort_key key
       (filter (\<lambda>r. Suc (level r) = l \<and> (k = None \<or> (key r \<noteq> None \<and> k \<le> key r)) \<and>
                     (key r = None \<or>
                      (case nextBoundary t l k s of [] \<Rightarrow> True | b # _ \<Rightarrow> key r < key b))) s)"

definition getHash :: "Tree \<Rightarrow> (nat \<Rightarrow> bytes \<Rightarrow> bytes) \<Rightarrow> nat \<Rightarrow> Key \<Rightarrow> Node list \<Rightarrow> bytes" where
  "getHash t b3 l k s = b3 (K t) (concat (map hash (children t l k s)))"

text \<open>
  \<^verbatim>\<open>SELECT * FROM nodes ORDER BY level DESC LIMIT 1\<close>: a row of the highest level (the first
  one in table order, where SQL leaves the choice open).
\<close>

definition getRoot :: "Node list \<Rightarrow> Node result" where
  "getRoot s =
     (case rev (sort_key level (rev s)) of
        [] \<Rightarrow> Throws TypeError
      | r # _ \<Rightarrow> Returns \<lparr>level = level r, key = key r, hash = hash r, val = None\<rparr>)"

subsection \<open>Mutation protocol\<close>

lemma find_Some_holds: "find P xs = Some x \<Longrightarrow> P x \<and> x \<in> set xs"
  by (induction xs) (auto split: if_splits)

lemma length_deleteNode:
  assumes "getNode l k s = Some n"
  shows "length (deleteNode l k s) < length s"
proof -
  from assms have r: "n \<in> set s" "level n = l \<and> key n = k"
    unfolding getNode_def by (auto dest: find_Some_holds)
  then have "\<not> \<not> (level n = l \<and> key n = k)"
    by simp
  with r(1) show ?thesis
    unfolding deleteNode_def by (rule length_filter_less)
qed

function deleteParents :: "nat \<Rightarrow> Key \<Rightarrow> Node list \<Rightarrow> Node list" where
  "deleteParents l k s =
     (case getNode (l + 1) k s of
        None \<Rightarrow> s
      | Some n \<Rightarrow> deleteParents (l + 1) k (deleteNode (l + 1) k s))"
  by pat_completeness auto
termination
  by (relation "measure (\<lambda>(l, k, s). length s)") (auto simp: length_deleteNode)

declare deleteParents.simps [simp del]

text \<open>
  \<^verbatim>\<open>updateAnchor\<close> climbs as long as the level holds a keyed row. It returns on every table:
  the number of keyed rows at or above the level decreases.
\<close>

definition keyedRows :: "nat \<Rightarrow> Node list \<Rightarrow> Node list" where
  "keyedRows l s = filter (\<lambda>r. level r = l \<and> key r \<noteq> None) s"

lemma length_filter_conj_le: "length (filter (\<lambda>x. R x \<and> P x) s) \<le> length (filter P s)"
  by (induction s) auto

lemma length_filter_conj_less:
  "r \<in> set s \<Longrightarrow> P r \<Longrightarrow> \<not> R r \<Longrightarrow>
   length (filter (\<lambda>x. R x \<and> P x) s) < length (filter P s)"
  by (induction s) (auto simp: less_Suc_eq_le length_filter_conj_le)

lemma filter_keyed_setNode:
  assumes "key n = None" and "\<And>r. P r \<Longrightarrow> key r \<noteq> None"
  shows "length (filter P (setNode n s)) = length (filter P s)"
proof -
  have "filter P (map (\<lambda>r. if level r = level n \<and> key r = key n
                     then r\<lparr>hash := hash n, val := val n\<rparr> else r) s) = filter P s"
  proof (induction s)
    case Nil
    show ?case by simp
  next
    case (Cons a s)
    have "P (a\<lparr>hash := hash n, val := val n\<rparr>) \<Longrightarrow> key a \<noteq> None"
      using assms(2) [of "a\<lparr>hash := hash n, val := val n\<rparr>"] by simp
    moreover have "P a \<Longrightarrow> key a \<noteq> None"
      using assms(2) by blast
    ultimately show ?case
      using Cons assms(1) by auto
  qed
  moreover have "\<not> P n"
    using assms by blast
  ultimately show ?thesis
    by (simp add: setNode_def)
qed

function updateAnchor :: "Tree \<Rightarrow> (nat \<Rightarrow> bytes \<Rightarrow> bytes) \<Rightarrow> nat \<Rightarrow> Node list \<Rightarrow> Node list" where
  "updateAnchor t b3 l s =
     (let h = getHash t b3 l None s;
          s1 = setNode \<lparr>level = l, key = None, hash = h, val = None\<rparr> s
      in if keyedRows l s1 = [] then deleteParents l None s1
         else updateAnchor t b3 (l + 1) s1)"
  by pat_completeness auto
termination
proof (relation "measure (\<lambda>(t, b3, l, s). length (filter (\<lambda>r. l \<le> level r \<and> key r \<noteq> None) s))")
  show "wf (measure (\<lambda>(t, b3, l, s). length (filter (\<lambda>r. l \<le> level r \<and> key r \<noteq> None) s)))"
    by simp
next
  fix t :: Tree and b3 :: "nat \<Rightarrow> bytes \<Rightarrow> bytes" and l :: nat and s x xa :: "Node list"
    and h :: bytes
  assume h: "h = getHash t b3 l None s"
    and xa: "xa = setNode \<lparr>level = l, key = None, hash = h, val = None\<rparr> s"
    and ne: "keyedRows l xa \<noteq> []"
  let ?n = "\<lparr>level = l, key = None, hash = h, val = None\<rparr>"
  have a: "length (filter (\<lambda>r. l + 1 \<le> level r \<and> key r \<noteq> None) xa)
         = length (filter (\<lambda>r. l + 1 \<le> level r \<and> key r \<noteq> None) s)"
    unfolding xa by (rule filter_keyed_setNode) auto
  have "length (keyedRows l xa) = length (keyedRows l s)"
    unfolding xa keyedRows_def by (rule filter_keyed_setNode) auto
  with ne have "keyedRows l s \<noteq> []"
    by auto
  then obtain r where r: "r \<in> set s" "level r = l" "key r \<noteq> None"
    unfolding keyedRows_def filter_empty_conv by blast
  have lt: "length (filter (\<lambda>r. l + 1 \<le> level r \<and> (l \<le> level r \<and> key r \<noteq> None)) s)
      < length (filter (\<lambda>r. l \<le> level r \<and> key r \<noteq> None) s)"
    by (rule length_filter_conj_less [of r]) (use r in auto)
  have eq: "(\<lambda>r. l + 1 \<le> level r \<and> (l \<le> level r \<and> key r \<noteq> None))
      = (\<lambda>r. l + 1 \<le> level r \<and> key r \<noteq> None)"
    by auto
  have "length (filter (\<lambda>r. l + 1 \<le> level r \<and> key r \<noteq> None) s)
      < length (filter (\<lambda>r. l \<le> level r \<and> key r \<noteq> None) s)"
    using lt unfolding eq .
  with a show "((t, b3, l + 1, xa), (t, b3, l, s))
      \<in> measure (\<lambda>(t, b3, l, s). length (filter (\<lambda>r. l \<le> level r \<and> key r \<noteq> None) s))"
    by simp
qed

declare updateAnchor.simps [simp del]


text \<open>
  \<^verbatim>\<open>createParents\<close> climbs as long as the node it has written is a boundary, which no
  property of the table bounds: the first argument bounds the depth of the recursion, and so
  it does for \<^verbatim>\<open>update\<close>, \<^verbatim>\<open>replace\<close> and \<^verbatim>\<open>replaceBoundary\<close>, which call it.
\<close>

fun createParents ::
  "nat \<Rightarrow> Tree \<Rightarrow> (nat \<Rightarrow> bytes \<Rightarrow> bytes) \<Rightarrow> nat \<Rightarrow> Key \<Rightarrow> Node list \<Rightarrow> Node list result" where
  "createParents 0 t b3 l k s = OutOfFuel"
| "createParents (Suc fuel) t b3 l k s =
     (let h = getHash t b3 (l + 1) k s;
          node = \<lparr>level = l + 1, key = k, hash = h, val = None\<rparr>;
          s1 = setNode node s
      in rbind (isBoundary t node)
           (\<lambda>b. if b then createParents fuel t b3 (l + 1) k s1 else Returns s1))"

fun update ::
    "nat \<Rightarrow> Tree \<Rightarrow> (nat \<Rightarrow> bytes \<Rightarrow> bytes) \<Rightarrow> nat \<Rightarrow> Key \<Rightarrow> Node list \<Rightarrow> Node list result"
  and replace ::
    "nat \<Rightarrow> Tree \<Rightarrow> (nat \<Rightarrow> bytes \<Rightarrow> bytes) \<Rightarrow> Node option \<Rightarrow> Node \<Rightarrow> Node list \<Rightarrow> Node list result"
  and replaceBoundary ::
    "nat \<Rightarrow> Tree \<Rightarrow> (nat \<Rightarrow> bytes \<Rightarrow> bytes) \<Rightarrow> Node \<Rightarrow> Node list \<Rightarrow> Node list result" where
  "update 0 t b3 l k s = OutOfFuel"
| "update (Suc fuel) t b3 l k s =
     (let oldNode = getNode l k s;
          h = getHash t b3 l k s;
          newNode = \<lparr>level = l, key = k, hash = h, val = None\<rparr>
      in replace fuel t b3 oldNode newNode s)"
| "replace 0 t b3 oldNode newNode s = OutOfFuel"
| "replace (Suc fuel) t b3 oldNode newNode s =
     rbind (case oldNode of None \<Rightarrow> Returns False | Some old \<Rightarrow> isBoundary t old)
       (\<lambda>oldBoundary.
          if oldBoundary then replaceBoundary fuel t b3 newNode s
          else rbind (getFirstSibling t newNode s)
            (\<lambda>firstSibling.
               let s1 = setNode newNode s
               in rbind (isBoundary t newNode)
                 (\<lambda>newBoundary.
                    rbind (if newBoundary
                           then createParents fuel t b3 (level newNode) (key newNode) s1
                           else Returns s1)
                      (\<lambda>s2. if key firstSibling = None
                            then Returns (updateAnchor t b3 (level newNode + 1) s2)
                            else update fuel t b3 (level newNode + 1) (key firstSibling) s2))))"
| "replaceBoundary 0 t b3 node s = OutOfFuel"
| "replaceBoundary (Suc fuel) t b3 node s =
     rbind (isBoundary t node)
       (\<lambda>b. if b then update fuel t b3 (level node + 1) (key node) (setNode node s)
            else let s1 = deleteParents (level node) (key node) (setNode node s)
                 in rbind (getFirstSibling t node s1)
                      (\<lambda>firstSibling.
                         if key firstSibling = None
                         then Returns (updateAnchor t b3 (level node + 1) s1)
                         else update fuel t b3 (level node + 1) (key firstSibling) s1))"

text \<open>
  \<^verbatim>\<open>set\<close> and \<^verbatim>\<open>delete\<close>. In \<^verbatim>\<open>delete\<close> the calls of \<^verbatim>\<open>deleteParents\<close> and
  \<^verbatim>\<open>deleteNode\<close> are not awaited; the model runs every call to its end in program order
  (the order in which the specification's ordering guarantee has a backend observe the
  storage operations of one mutation).
\<close>

definition Tree_set ::
  "nat \<Rightarrow> Tree \<Rightarrow> (nat \<Rightarrow> bytes \<Rightarrow> bytes) \<Rightarrow> bytes \<Rightarrow> bytes \<Rightarrow> Node list \<Rightarrow> Node list result" where
  "Tree_set fuel t b3 ky v s =
     (let oldLeaf = getNode 0 (Some ky) s;
          h = hashEntry b3 (K t) ky v;
          newLeaf = \<lparr>level = 0, key = Some ky, hash = h, val = Some v\<rparr>
      in replace fuel t b3 oldLeaf newLeaf s)"

definition Tree_delete ::
  "nat \<Rightarrow> Tree \<Rightarrow> (nat \<Rightarrow> bytes \<Rightarrow> bytes) \<Rightarrow> bytes \<Rightarrow> Node list \<Rightarrow> Node list result" where
  "Tree_delete fuel t b3 ky s =
     (case getNode 0 (Some ky) s of
        None \<Rightarrow> Returns s
      | Some node \<Rightarrow>
          rbind (if key node \<noteq> None then isBoundary t node else Returns False)
            (\<lambda>b. let s1 = (if b then deleteParents 0 (Some ky) s else s);
                     s2 = deleteNode 0 (Some ky) s1
                 in rbind (getFirstSibling t node s2)
                      (\<lambda>firstSibling.
                         if key firstSibling = None then Returns (updateAnchor t b3 1 s2)
                         else update fuel t b3 1 (key firstSibling) s2)))"

text \<open>
  \<^verbatim>\<open>Tree.initialize\<close>: the table as it was (\<^verbatim>\<open>CREATE TABLE IF NOT EXISTS\<close>), emptied when
  \<^verbatim>\<open>options.clear\<close> is set, with the leaf anchor written.
\<close>

definition initialize ::
  "(nat \<Rightarrow> bytes \<Rightarrow> bytes) \<Rightarrow> nat option \<Rightarrow> int option \<Rightarrow> bool \<Rightarrow> Node list \<Rightarrow> (Tree \<times> Node list) result" where
  "initialize b3 optK optQ clear s =
     rbind (new_Tree b3 optK optQ)
       (\<lambda>t. Returns (t, setNode \<lparr>level = 0, key = None, hash = LEAF_ANCHOR_HASH t, val = None\<rparr>
                          (if clear then [] else s)))"

section \<open>Builder (okra)\<close>

text \<open>
  Modelled from the spec: the \<^verbatim>\<open>NodeStore\<close> of \<^verbatim>\<open>NodeStore.js\<close>, which is not among the
  sources. The specification's contract gives it \<^verbatim>\<open>getNode(level, key)\<close>, \<^verbatim>\<open>setNode(node)\<close>
  (an upsert by level and key) and \<^verbatim>\<open>nodes(level)\<close>, the nodes of a level in ascending key
  order with the anchor first. The store is a list of nodes, read and written as the table
  above is.
\<close>

definition NodeStore_getNode :: "nat \<Rightarrow> Key \<Rightarrow> Node list \<Rightarrow> Node option" where
  "NodeStore_getNode l k st = getNode l k st"

definition NodeStore_setNode :: "Node \<Rightarrow> Node list \<Rightarrow> Node list" where
  "NodeStore_setNode n st = setNode n st"

definition nodes :: "nat \<Rightarrow> Node list \<Rightarrow> Node list" where
  "nodes l st = sort_key key (filter (\<lambda>r. level r = l) st)"

text \<open>
  The builder: \<^verbatim>\<open>K\<close> and \<^verbatim>\<open>Q\<close> of the store's metadata, \<^verbatim>\<open>limit\<close>, \<^verbatim>\<open>nodeCount\<close> and the
  store. \<^verbatim>\<open>hashEntry\<close> of \<^verbatim>\<open>utils.js\<close> is not among the sources either; the specification
  gives it the definition that \<^verbatim>\<open>Tree.hashEntry\<close> has.
\<close>

record Builder =
  builder_K :: nat
  builder_Q :: int
  limit :: int
  nodeCount :: nat
  store :: "Node list"

definition new_Builder :: "nat \<Rightarrow> int \<Rightarrow> Node list \<Rightarrow> Builder result" where
  "new_Builder k q st =
     (if q = 0 then Throws RangeError
      else Returns \<lparr>builder_K = k, builder_Q = q, limit = (2 ^ 32) sdiv q, nodeCount = 1,
                      store = st\<rparr>)"

definition Builder_set :: "(nat \<Rightarrow> bytes \<Rightarrow> bytes) \<Rightarrow> bytes \<Rightarrow> bytes \<Rightarrow> Builder \<Rightarrow> Builder" where
  "Builder_set b3 ky v b =
     b\<lparr>store := NodeStore_setNode
                   \<lparr>level = 0, key = Some ky, hash = hashEntry b3 (builder_K b) ky v, val = Some v\<rparr>
                   (store b),
       nodeCount := nodeCount b + 1\<rparr>"

text \<open>
  \<^verbatim>\<open>new DataView(node.hash.buffer, node.hash.byteOffset, 4)\<close> throws \<^verbatim>\<open>RangeError\<close> when the
  hash has fewer than four bytes.
\<close>

definition Builder_isBoundary :: "Builder \<Rightarrow> Node \<Rightarrow> bool result" where
  "Builder_isBoundary b n =
     (if length (hash n) < 4 then Throws RangeError
      else rbind (getUint32 (take 4 (hash n))) (\<lambda>u. Returns (u < limit b)))"

text \<open>
  The loop of \<^verbatim>\<open>buildLevel\<close>: \<open>ky\<close> and \<open>acc\<close> are the key of the open chunk and the
  bytes its hasher has been fed, \<open>cnt\<close> is \<^verbatim>\<open>nodeCount\<close>, the list is what the iterator over
  the level has left, and \<open>st\<close> is the store. The iterator reads level \<open>l\<close> and the loop
  writes level \<open>l + 1\<close>, so the nodes it yields are those the level had at the start.
\<close>

fun buildLoop ::
  "(nat \<Rightarrow> bytes \<Rightarrow> bytes) \<Rightarrow> Builder \<Rightarrow> nat \<Rightarrow> Key \<Rightarrow> bytes \<Rightarrow> nat \<Rightarrow> Node list \<Rightarrow> Node list
   \<Rightarrow> (nat \<times> Node list) result" where
  "buildLoop b3 b l ky acc cnt [] st =
     Returns (cnt + 1,
       NodeStore_setNode \<lparr>level = l + 1, key = ky, hash = b3 (builder_K b) acc, val = None\<rparr> st)"
| "buildLoop b3 b l ky acc cnt (n # ns) st =
     (if level n \<noteq> l then Throws AssertionError
      else rbind (Builder_isBoundary b n)
        (\<lambda>bd. if bd
              then buildLoop b3 b l (key n) (hash n) (cnt + 1) ns
                     (NodeStore_setNode
                        \<lparr>level = l + 1, key = ky, hash = b3 (builder_K b) acc, val = None\<rparr> st)
              else buildLoop b3 b l ky (acc @ hash n) cnt ns st))"

definition buildLevel :: "(nat \<Rightarrow> bytes \<Rightarrow> bytes) \<Rightarrow> Builder \<Rightarrow> nat \<Rightarrow> (nat \<times> Builder) result" where
  "buildLevel b3 b l =
     (case nodes l (store b) of
        [] \<Rightarrow> Throws AssertionError
      | n # ns \<Rightarrow>
          if \<not> (level n = l \<and> key n = None) then Throws AssertionError
          else rbind (buildLoop b3 b l (key n) (hash n) 0 ns (store b))
                 (\<lambda>(cnt, st). Returns (cnt, b\<lparr>store := st\<rparr>)))"

text \<open>
  \<^verbatim>\<open>finalize\<close>: the loop \<^verbatim>\<open>while (this.nodeCount > 1)\<close> need not end (a level all of whose
  nodes are boundaries is as long as the one below), so its depth is bounded by the first
  argument. It returns the level it has reached.
\<close>

fun finalizeLoop :: "nat \<Rightarrow> (nat \<Rightarrow> bytes \<Rightarrow> bytes) \<Rightarrow> Builder \<Rightarrow> nat \<Rightarrow> (nat \<times> Builder) result" where
  "finalizeLoop 0 b3 b l = OutOfFuel"
| "finalizeLoop (Suc fuel) b3 b l =
     (if nodeCount b > 1
      then rbind (buildLevel b3 b l)
             (\<lambda>(cnt, b'). finalizeLoop fuel b3 (b'\<lparr>nodeCount := cnt\<rparr>) (l + 1))
      else Returns (l, b))"

definition Builder_finalize :: "nat \<Rightarrow> (nat \<Rightarrow> bytes \<Rightarrow> bytes) \<Rightarrow> Builder \<Rightarrow> (Node \<times> Builder) result" where
  "Builder_finalize fuel b3 b =
     rbind (finalizeLoop fuel b3 b 0)
       (\<lambda>(l, b'). case NodeStore_getNode l None (store b') of
                    None \<Rightarrow> Throws AssertionError
                  | Some r \<Rightarrow> Returns (r, b'))"

section \<open>Concrete instances\<close>

text \<open>
  The theorems below hold for every hash function \<open>b3\<close>. To run the model on concrete
  tables, \<open>b3\<close> is instantiated with a small function of the right shape (its digest has
  the length asked for): the first byte mixes the input bytes, the others are zero.
\<close>

definition toy_hash :: "nat \<Rightarrow> bytes \<Rightarrow> bytes" where
  "toy_hash n x = take n (foldl (\<lambda>a c. 5 * a + c + 1) 0 x # replicate n 0)"

text \<open>The tree parameters for \<^verbatim>\<open>{ K: 4, Q: 4 }\<close> and for \<^verbatim>\<open>{ K: 4, Q: 1 }\<close>.\<close>

definition tree_K4_Q4 :: Tree where
  "tree_K4_Q4 = \<lparr>K = 4, Q = 4, LIMIT = 1073741824, LIMIT_KEY = [64, 0, 0, 0],
                  LEAF_ANCHOR_HASH = [0, 0, 0, 0]\<rparr>"

definition tree_K4_Q1 :: Tree where
  "tree_K4_Q1 = \<lparr>K = 4, Q = 1, LIMIT = 4294967296, LIMIT_KEY = [0, 0, 0, 0],
                  LEAF_ANCHOR_HASH = [0, 0, 0, 0]\<rparr>"

definition builder_K4_Q4 :: Builder where
  "builder_K4_Q4 = \<lparr>builder_K = 4, builder_Q = 4, limit = 1073741824, nodeCount = 1, store = []\<rparr>"

definition leaf_anchor :: Node where
  "leaf_anchor = \<lparr>level = 0, key = None, hash = [0, 0, 0, 0], val = None\<rparr>"

section \<open>The boundary test\<close>

text \<open>
  The reading of the specification: the bytes as one unsigned big-endian integer.
\<close>

definition be_uint :: "bytes \<Rightarrow> int" where
  "be_uint b = foldl (\<lambda>a x. a * 256 + uint x) 0 b"

lemma length4_cases:
  assumes "4 \<le> length (h :: 'a list)"
  obtains b0 b1 b2 b3 r where "h = b0 # b1 # b2 # b3 # r"
proof -
  from assms obtain b0 h1 where h: "h = b0 # h1" by (cases h) auto
  with assms obtain b1 h2 where h1: "h1 = b1 # h2" by (cases h1) auto
  with h assms obtain b2 h3 where h2: "h2 = b2 # h3" by (cases h2) auto
  with h h1 assms obtain b3 r where h3: "h3 = b3 # r" by (cases h3) auto
  with h h1 h2 that show thesis by blast
qed

lemma getUint32_be_uint:
  assumes "4 \<le> length h"
  shows "getUint32 h = Returns (be_uint (take 4 h))"
    and "getUint32 (take 4 h) = Returns (be_uint (take 4 h))"
proof -
  from assms obtain b0 b1 b2 b3 r where "h = b0 # b1 # b2 # b3 # r"
    by (rule length4_cases)
  then show "getUint32 h = Returns (be_uint (take 4 h))"
    and "getUint32 (take 4 h) = Returns (be_uint (take 4 h))"
    by (simp_all add: getUint32_def be_uint_def)
qed

lemma sdiv_floor:
  fixes q u :: int
  assumes "q \<noteq> 0" "0 \<le> u"
  shows "(u < (2 ^ 32) sdiv q) = (u < \<lfloor>2 ^ 32 / real_of_int q\<rfloor>)"
proof (cases "0 < q")
  case True
  have "\<lfloor>2 ^ 32 / real_of_int q\<rfloor> = \<lfloor>real_of_int (2 ^ 32) / real_of_int q\<rfloor>"
    by simp
  also have "\<dots> = (2 ^ 32) div q"
    by (rule floor_divide_of_int_eq)
  finally show ?thesis
    using True by (simp add: signed_divide_int_def)
next
  case False
  with assms have q: "q < 0" by simp
  then have "(2 ^ 32) sdiv q \<le> 0"
    by (simp add: signed_divide_int_def pos_imp_zdiv_nonneg_iff)
  moreover have "\<lfloor>2 ^ 32 / real_of_int q\<rfloor> \<le> 0"
    using q by (simp add: floor_le_iff divide_nonneg_neg divide_le_0_iff)
  ultimately show ?thesis
    using assms(2) by linarith
qed

lemma be_uint_nonneg: "0 \<le> be_uint b"
proof -
  have "0 \<le> a \<Longrightarrow> 0 \<le> foldl (\<lambda>a x. a * 256 + uint x) a b" for a
    by (induction b arbitrary: a) auto
  then show ?thesis by (simp add: be_uint_def)
qed

text \<open>
  Claim C2. For a tree and a builder with the same \<^verbatim>\<open>Q\<close> and a node whose hash has at least
  four bytes, both boundary tests return, and they return true exactly when the first four
  bytes of the hash, read as an unsigned big-endian integer, are below the floor of
  \<open>2 ^ 32 / Q\<close>.
\<close>

theorem boundary_test:
  assumes "new_Tree b3 optK optQ = Returns t"
    and "new_Builder (K t) (Q t) st = Returns b"
    and "4 \<le> length (hash n)"
  shows "isBoundary t n = Returns (be_uint (take 4 (hash n)) < \<lfloor>2 ^ 32 / real_of_int (Q t)\<rfloor>)
       \<and> Builder_isBoundary b n = Returns (be_uint (take 4 (hash n)) < \<lfloor>2 ^ 32 / real_of_int (Q t)\<rfloor>)"
proof -
  from assms(1) have q: "Q t \<noteq> 0" and lim: "LIMIT t = (2 ^ 32) sdiv Q t"
    by (auto simp: new_Tree_def Let_def split: if_splits)
  from assms(2) have blim: "limit b = (2 ^ 32) sdiv Q t"
    by (auto simp: new_Builder_def split: if_splits)
  note eq = sdiv_floor [OF q be_uint_nonneg, of "take 4 (hash n)"]
  have "isBoundary t n = Returns (be_uint (take 4 (hash n)) < LIMIT t)"
    by (simp add: isBoundary_def getUint32_be_uint assms(3))
  moreover have "Builder_isBoundary b n = Returns (be_uint (take 4 (hash n)) < limit b)"
    using assms(3) by (simp add: Builder_isBoundary_def getUint32_be_uint)
  ultimately show ?thesis
    by (simp only: lim blim eq)
qed

theorem boundary_test_witness:
  "new_Tree toy_hash (Some 4) (Some 4) = Returns tree_K4_Q4
   \<and> new_Builder (K tree_K4_Q4) (Q tree_K4_Q4) [] = Returns builder_K4_Q4
   \<and> 4 \<le> length (hash leaf_anchor)
   \<and> isBoundary tree_K4_Q4 leaf_anchor = Returns True
   \<and> Builder_isBoundary builder_K4_Q4 leaf_anchor = Returns True"
proof -
  have t: "new_Tree toy_hash (Some 4) (Some 4) = Returns tree_K4_Q4"
    by code_simp
  have b: "new_Builder (K tree_K4_Q4) (Q tree_K4_Q4) [] = Returns builder_K4_Q4"
    by code_simp
  have h: "4 \<le> length (hash leaf_anchor)"
    by code_simp
  have "be_uint (take 4 (hash leaf_anchor)) < \<lfloor>2 ^ 32 / real_of_int (Q tree_K4_Q4)\<rfloor>"
    by (simp add: leaf_anchor_def be_uint_def tree_K4_Q4_def)
  with boundary_test [OF t b h] t b h show ?thesis
    by simp
qed

text \<open>
  The comparison \<^verbatim>\<open>hash < $3\<close> of the queries, with \<^verbatim>\<open>LIMIT_KEY\<close> for \<^verbatim>\<open>$3\<close>, is the
  lexicographic order on byte arrays.
\<close>

lemma lex_step:
  fixes x y a b :: int
  assumes "0 \<le> a" "a < 256" "0 \<le> b" "b < 256"
  shows "(x * 256 + a < y * 256 + b) = (x < y \<or> x = y \<and> a < b)"
  using assms by auto

lemma lex_eq_step:
  fixes x y a b :: int
  assumes "0 \<le> a" "a < 256" "0 \<le> b" "b < 256"
  shows "(x * 256 + a = y * 256 + b) = (x = y \<and> a = b)"
  using assms by (cases x y rule: linorder_cases) auto

lemma be_decomp:
  fixes m :: int
  shows "m = ((m div 16777216 * 256 + m div 65536 mod 256) * 256 + m div 256 mod 256) * 256 + m mod 256"
proof -
  have a: "m div 65536 = m div 256 div 256" and b: "m div 16777216 = m div 256 div 256 div 256"
    by (simp_all add: zdiv_zmult2_eq)
  have "m div 256 div 256 div 256 * 256 + m div 256 div 256 mod 256 = m div 256 div 256"
    by (rule div_mult_mod_eq)
  moreover have "m div 256 div 256 * 256 + m div 256 mod 256 = m div 256"
    by (rule div_mult_mod_eq)
  moreover have "m div 256 * 256 + m mod 256 = m"
    by (rule div_mult_mod_eq)
  ultimately show ?thesis
    unfolding a b by simp
qed

lemma uint_setUint32:
  fixes m :: int
  assumes "0 \<le> m" "m < 2 ^ 32" and y: "setUint32 m = [y0, y1, y2, y3]"
  shows "uint y0 = m div 16777216" and "uint y1 = m div 65536 mod 256"
    and "uint y2 = m div 256 mod 256" and "uint y3 = m mod 256"
proof -
  let ?w = "word_of_int m :: 32 word"
  have w: "uint ?w = m"
    using assms by (simp add: uint_word_of_int)
  have d0: "m div 16777216 < 256" "0 \<le> m div 16777216"
    using assms by auto
  have tb: "m mod 4294967296 = m"
    using assms by simp
  have sh: "uint (ucast (drop_bit i ?w) :: 8 word) = m div 2 ^ i mod 256" for i
    by (simp only: unsigned_ucast_eq unsigned_drop_bit_eq w)
       (simp add: tb take_bit_eq_mod drop_bit_eq_div)
  from y have ys: "y0 = ucast (drop_bit 24 ?w)" "y1 = ucast (drop_bit 16 ?w)"
      "y2 = ucast (drop_bit 8 ?w)" "y3 = ucast (drop_bit 0 ?w)"
    by (simp_all only: setUint32_def Let_def list.inject drop_bit_0 id_apply)
  show "uint y0 = m div 16777216"
    unfolding ys using d0 sh [of 24] by simp
  show "uint y1 = m div 65536 mod 256"
    unfolding ys using sh [of 16] by simp
  show "uint y2 = m div 256 mod 256"
    unfolding ys using sh [of 8] by simp
  show "uint y3 = m mod 256"
    unfolding ys using sh [of 0] by simp
qed

lemma length_setUint32: "\<exists>y0 y1 y2 y3. setUint32 m = [y0, y1, y2, y3]"
  by (simp only: setUint32_def Let_def) blast

lemma bytea_less_setUint32:
  fixes m :: int
  assumes "0 \<le> m" "m < 2 ^ 32" "4 \<le> length h"
  shows "(h < setUint32 m) = (be_uint (take 4 h) < m)"
proof -
  from assms(3) obtain b0 b1 b2 b3 r where h: "h = b0 # b1 # b2 # b3 # r"
    by (rule length4_cases)
  from length_setUint32 obtain y0 y1 y2 y3 where y0: "setUint32 m = [y0, y1, y2, y3]"
    by blast
  note y = y0 uint_setUint32 [OF assms(1,2) y0]
  have m: "m = ((uint y0 * 256 + uint y1) * 256 + uint y2) * 256 + uint y3"
    unfolding y(2-5) by (rule be_decomp)
  have b: "0 \<le> uint c" "uint c < 256" for c :: "8 word"
    using uint_bounded [of c] by simp_all
  have "(h < setUint32 m) =
      (uint b0 < uint y0 \<or> uint b0 = uint y0 \<and>
        (uint b1 < uint y1 \<or> uint b1 = uint y1 \<and>
          (uint b2 < uint y2 \<or> uint b2 = uint y2 \<and> uint b3 < uint y3)))"
    by (simp add: h y(1) word_less_def word_uint_eq_iff)
  also have "\<dots> = (((uint b0 * 256 + uint b1) * 256 + uint b2) * 256 + uint b3
      < ((uint y0 * 256 + uint y1) * 256 + uint y2) * 256 + uint y3)"
    by (simp only: lex_step [OF b b] lex_eq_step [OF b b]) blast
  also have "\<dots> = (be_uint (take 4 h) < m)"
    using m by (simp add: h be_uint_def)
  finally show ?thesis .
qed

text \<open>
  Claim C10 fails for \<^verbatim>\<open>Q = 1\<close>: \<^verbatim>\<open>LIMIT\<close> is \<open>2 ^ 32\<close>, which \<^verbatim>\<open>setUint32\<close> stores as
  zero, so that no hash is below \<^verbatim>\<open>LIMIT_KEY\<close> while \<^verbatim>\<open>isBoundary\<close> holds of every hash.
\<close>

theorem sql_boundary_test_Q1:
  "new_Tree toy_hash (Some 4) (Some 1) = Returns tree_K4_Q1
   \<and> isBoundary tree_K4_Q1 leaf_anchor = Returns True
   \<and> \<not> hash leaf_anchor < LIMIT_KEY tree_K4_Q1"
  by code_simp

text \<open>
  Claim C10, amended. For \<^verbatim>\<open>Q\<close> of at least 2 and a hash of at least four bytes, the
  comparison \<^verbatim>\<open>hash < LIMIT_KEY\<close> of the queries holds exactly when the first four bytes of
  the hash, read as an unsigned big-endian integer, are below \<^verbatim>\<open>LIMIT\<close>, which is exactly
  when \<^verbatim>\<open>isBoundary\<close> returns true.
\<close>

theorem sql_boundary_test:
  assumes "new_Tree b3 optK optQ = Returns t"
    and "2 \<le> Q t"
    and "4 \<le> length (hash n)"
  shows "(hash n < LIMIT_KEY t) = (be_uint (take 4 (hash n)) < LIMIT t)
       \<and> (hash n < LIMIT_KEY t) = (isBoundary t n = Returns True)"
proof -
  from assms(1) have lim: "LIMIT t = (2 ^ 32) sdiv Q t" and key: "LIMIT_KEY t = setUint32 (LIMIT t)"
    by (auto simp: new_Tree_def Let_def split: if_splits)
  have l: "LIMIT t = (2 ^ 32) div Q t"
    using assms(2) by (simp add: lim signed_divide_int_def)
  have "0 \<le> LIMIT t"
    unfolding l using assms(2) by (simp add: pos_imp_zdiv_nonneg_iff)
  moreover have "LIMIT t < 2 ^ 32"
    unfolding l using assms(2) by (simp add: int_div_less_self)
  ultimately have "(hash n < LIMIT_KEY t) = (be_uint (take 4 (hash n)) < LIMIT t)"
    unfolding key using assms(3) by (rule bytea_less_setUint32)
  then show ?thesis
    by (simp add: isBoundary_def getUint32_be_uint assms(3))
qed

theorem sql_boundary_test_witness:
  "new_Tree toy_hash (Some 4) (Some 4) = Returns tree_K4_Q4
   \<and> 2 \<le> Q tree_K4_Q4 \<and> 4 \<le> length (hash leaf_anchor)
   \<and> hash leaf_anchor < LIMIT_KEY tree_K4_Q4
   \<and> isBoundary tree_K4_Q4 leaf_anchor = Returns True"
proof -
  have t: "new_Tree toy_hash (Some 4) (Some 4) = Returns tree_K4_Q4"
    by code_simp
  have q: "2 \<le> Q tree_K4_Q4"
    by code_simp
  have h: "4 \<le> length (hash leaf_anchor)"
    by code_simp
  have "hash leaf_anchor < LIMIT_KEY tree_K4_Q4"
    by code_simp
  with sql_boundary_test [OF t q h] t q h show ?thesis
    by simp
qed

section \<open>Deleting an absent key\<close>

text \<open>
  Claim C9. When no row of level 0 has the key, \<^verbatim>\<open>delete\<close> returns and the table is the one
  it was given.
\<close>

theorem delete_absent:
  assumes "\<forall>r \<in> set s. \<not> (level r = 0 \<and> key r = Some ky)"
  shows "Tree_delete fuel t b3 ky s = Returns s"
proof -
  from assms have "getNode 0 (Some ky) s = None"
    unfolding getNode_def find_None_iff by blast
  then show ?thesis
    by (simp add: Tree_delete_def)
qed

theorem delete_absent_witness:
  "Tree_delete 0 tree_K4_Q4 toy_hash [1] [leaf_anchor] = Returns [leaf_anchor]"
proof -
  have h: "\<forall>r \<in> set [leaf_anchor]. \<not> (level r = 0 \<and> key r = Some [1])"
    by (simp add: leaf_anchor_def)
  from delete_absent [OF h] show ?thesis .
qed

end
